theory Spec2Isabelle
  imports Main "HOL-Library.Word" "HOL-Library.Sublist"
begin

section \<open>JavaScript strings\<close>

text \<open>
  A JavaScript string is a sequence of UTF-16 code units. \<open>value.length\<close> counts code
  units; the string iterator (\<open>for (const char of value)\<close>, \<open>new Set(value)\<close>) walks
  code points: a high surrogate followed by a low surrogate is one element of two units,
  every other unit (an unpaired surrogate too) is an element of its own.
\<close>

type_synonym code_unit = "16 word"
type_synonym jsstring = "code_unit list"
type_synonym byte = "8 word"

definition js :: "string \<Rightarrow> jsstring" where
  \<comment> \<open>an ASCII literal of the source as code units\<close>
  "js cs = map of_char cs"

definition isHighSurrogate :: "code_unit \<Rightarrow> bool" where
  "isHighSurrogate u \<longleftrightarrow> 0xD800 \<le> u \<and> u \<le> 0xDBFF"

definition isLowSurrogate :: "code_unit \<Rightarrow> bool" where
  "isLowSurrogate u \<longleftrightarrow> 0xDC00 \<le> u \<and> u \<le> 0xDFFF"

fun stringIterator :: "jsstring \<Rightarrow> jsstring list" where
  "stringIterator [] = []"
| "stringIterator [u] = [[u]]"
| "stringIterator (u # v # rest) =
     (if isHighSurrogate u \<and> isLowSurrogate v then [u, v] # stringIterator rest
      else [u] # stringIterator (v # rest))"

subsection \<open>toLowerCase\<close>

text \<open>
  \<open>String.prototype.toLowerCase\<close> maps every code point of the string to its Unicode
  lowercase mapping and concatenates the results. On ASCII that is \<open>A-Z\<close> to \<open>a-z\<close> and
  nothing else. The mapping of the other code points is a table of the JavaScript
  engine's Unicode version (and depends on the context for the final sigma); it is the
  parameter \<open>U\<close>: \<open>U s i\<close> is the code units that the \<open>i\<close>-th code point of \<open>s\<close>
  becomes.
\<close>

type_synonym lowercase_mapping = "jsstring \<Rightarrow> nat \<Rightarrow> jsstring"

definition asciiLower :: "code_unit \<Rightarrow> code_unit" where
  "asciiLower u = (if 0x41 \<le> u \<and> u \<le> 0x5A then u + 0x20 else u)"

fun lowerCodePoint :: "lowercase_mapping \<Rightarrow> jsstring \<Rightarrow> nat \<times> jsstring \<Rightarrow> jsstring" where
  "lowerCodePoint U s (i, [u]) = (if u < 0x80 then [asciiLower u] else U s i)"
| "lowerCodePoint U s (i, cp) = U s i"

definition toLowerCase :: "lowercase_mapping \<Rightarrow> jsstring \<Rightarrow> jsstring" where
  "toLowerCase U s = concat (map (lowerCodePoint U s) (enumerate 0 (stringIterator s)))"

subsection \<open>includes, trim, split\<close>

fun startsWith :: "jsstring \<Rightarrow> jsstring \<Rightarrow> bool" where
  "startsWith s [] = True"
| "startsWith [] (p # ps) = False"
| "startsWith (u # s) (p # ps) = (u = p \<and> startsWith s ps)"

fun includes_str :: "jsstring \<Rightarrow> jsstring \<Rightarrow> bool" where
  "includes_str [] t = startsWith [] t"
| "includes_str (u # s) t = (startsWith (u # s) t \<or> includes_str s t)"

definition isWhiteSpace :: "code_unit \<Rightarrow> bool" where
  \<comment> \<open>the regular expression class \<open>\s\<close> and the characters \<open>trim\<close> strips: WhiteSpace and
      LineTerminator of ECMAScript\<close>
  "isWhiteSpace u \<longleftrightarrow>
     u = 0x09 \<or> u = 0x0A \<or> u = 0x0B \<or> u = 0x0C \<or> u = 0x0D \<or> u = 0x20 \<or> u = 0xA0 \<or>
     u = 0x1680 \<or> (0x2000 \<le> u \<and> u \<le> 0x200A) \<or> u = 0x2028 \<or> u = 0x2029 \<or>
     u = 0x202F \<or> u = 0x205F \<or> u = 0x3000 \<or> u = 0xFEFF"

definition trim :: "jsstring \<Rightarrow> jsstring" where
  "trim s = rev (dropWhile isWhiteSpace (rev (dropWhile isWhiteSpace s)))"

text \<open>
  \<open>str.split(/\s+/)\<close>: the pieces between the maximal runs of whitespace; \<open>cur\<close> is the
  piece being read. A run at the very start or end leaves an empty piece there, and the
  empty string splits into one empty piece.
\<close>

function splitWhiteSpace :: "jsstring \<Rightarrow> jsstring \<Rightarrow> jsstring list" where
  "splitWhiteSpace cur [] = [cur]"
| "splitWhiteSpace cur (u # rest) =
     (if isWhiteSpace u then cur # splitWhiteSpace [] (dropWhile isWhiteSpace rest)
      else splitWhiteSpace (cur @ [u]) rest)"
  by pat_completeness auto
termination
  by (relation "measure (\<lambda>(cur, s). length s)")
     (auto simp: length_dropWhile_le less_Suc_eq_le)

section \<open>The analyzer\<close>

subsection \<open>The SHA-256 fingerprint\<close>

text \<open>
  \<open>crypto.createHash("sha256").update(str).digest("hex")\<close>: the string is encoded as
  UTF-8, an unpaired surrogate as U+FFFD (bytes EF BF BD); the digest of the bytes is
  written as lowercase hexadecimal. The digest function of the crypto library is the
  parameter \<open>H\<close>.
\<close>

definition codePoint :: "jsstring \<Rightarrow> nat" where
  \<comment> \<open>the code point of an element of the string iterator\<close>
  "codePoint cp =
     (case cp of
        [h, l] \<Rightarrow> 0x10000 + (unat h - 0xD800) * 0x400 + (unat l - 0xDC00)
      | [u] \<Rightarrow> unat u
      | _ \<Rightarrow> 0)"

definition utf8CodePoint :: "nat \<Rightarrow> byte list" where
  "utf8CodePoint c =
     (if c < 0x80 then [of_nat c]
      else if c < 0x800 then [of_nat (0xC0 + c div 0x40), of_nat (0x80 + c mod 0x40)]
      else if 0xD800 \<le> c \<and> c \<le> 0xDFFF then [0xEF, 0xBF, 0xBD]
      else if c < 0x10000 then
        [of_nat (0xE0 + c div 0x1000), of_nat (0x80 + c div 0x40 mod 0x40),
         of_nat (0x80 + c mod 0x40)]
      else
        [of_nat (0xF0 + c div 0x40000), of_nat (0x80 + c div 0x1000 mod 0x40),
         of_nat (0x80 + c div 0x40 mod 0x40), of_nat (0x80 + c mod 0x40)])"

definition utf8Encode :: "jsstring \<Rightarrow> byte list" where
  "utf8Encode s = concat (map (utf8CodePoint \<circ> codePoint) (stringIterator s))"

definition hexDigit :: "nat \<Rightarrow> code_unit" where
  "hexDigit n = (if n < 10 then of_nat (0x30 + n) else of_nat (0x61 + (n - 10)))"

definition hexByte :: "byte \<Rightarrow> jsstring" where
  "hexByte b = [hexDigit (unat b div 16), hexDigit (unat b mod 16)]"

definition computeHash :: "(byte list \<Rightarrow> byte list) \<Rightarrow> jsstring \<Rightarrow> jsstring" where
  "computeHash H str = concat (map hexByte (H (utf8Encode str)))"

subsection \<open>Set and object\<close>

text \<open>
  \<open>new Set(value)\<close> adds the elements of the iterator one by one; an element already in
  the set is not added again. The frequency map is an object: assigning to a key that
  exists replaces its value in place, assigning to a new key adds it. The list keeps the
  keys in the order of their first assignment; the order in which JavaScript enumerates
  them (keys that are decimal digits first) is not modelled.
\<close>

definition set_add :: "'a list \<Rightarrow> 'a \<Rightarrow> 'a list" where
  "set_add S x = (if x \<in> set S then S else S @ [x])"

definition newSet :: "'a list \<Rightarrow> 'a list" where
  "newSet xs = foldl set_add [] xs"

type_synonym frequency_map = "(jsstring \<times> nat) list"

fun assign :: "('k \<times> 'v) list \<Rightarrow> 'k \<Rightarrow> 'v \<Rightarrow> ('k \<times> 'v) list" where
  "assign [] k v = [(k, v)]"
| "assign ((k', v') # m) k v = (if k' = k then (k, v) # m else (k', v') # assign m k v)"

definition countChar :: "frequency_map \<Rightarrow> jsstring \<Rightarrow> frequency_map" where
  \<comment> \<open>\<open>map[char] = (map[char] || 0) + 1\<close>\<close>
  "countChar m char = assign m char ((case map_of m char of None \<Rightarrow> 0 | Some c \<Rightarrow> c) + 1)"

subsection \<open>analyzeString\<close>

definition isAlnum :: "code_unit \<Rightarrow> bool" where
  \<comment> \<open>the character class \<open>[a-z0-9]\<close>\<close>
  "isAlnum u \<longleftrightarrow> (0x61 \<le> u \<and> u \<le> 0x7A) \<or> (0x30 \<le> u \<and> u \<le> 0x39)"

fun removeNonAlnum :: "jsstring \<Rightarrow> jsstring" where
  \<comment> \<open>\<open>.replace(/[^a-z0-9]/g, "")\<close>\<close>
  "removeNonAlnum [] = []"
| "removeNonAlnum (u # s) = (if isAlnum u then u # removeNonAlnum s else removeNonAlnum s)"

definition split_chars :: "jsstring \<Rightarrow> jsstring list" where
  \<comment> \<open>\<open>.split("")\<close>: one string for each code unit\<close>
  "split_chars s = map (\<lambda>u. [u]) s"

definition join :: "jsstring list \<Rightarrow> jsstring" where
  \<comment> \<open>\<open>.join("")\<close>\<close>
  "join ps = concat ps"

text \<open>
  The object that \<open>analyzeString\<close> returns. Its field \<open>length\<close> is \<open>length_prop\<close> here,
  \<open>length\<close> being the length of a list.
\<close>

record properties =
  length_prop :: nat
  is_palindrome :: bool
  unique_characters :: nat
  word_count :: nat
  sha256_hash :: jsstring
  character_frequency_map :: frequency_map

definition analyzeString ::
  "lowercase_mapping \<Rightarrow> (byte list \<Rightarrow> byte list) \<Rightarrow> jsstring \<Rightarrow> properties" where
  "analyzeString U H v =
     (let cleanStr = removeNonAlnum (toLowerCase U v) in
      \<lparr> length_prop = length v,
        is_palindrome = (cleanStr = join (rev (split_chars cleanStr))),
        unique_characters = length (newSet (stringIterator v)),
        word_count = length (filter (\<lambda>word. length word > 0) (splitWhiteSpace [] (trim v))),
        sha256_hash = computeHash H v,
        character_frequency_map = foldl countChar [] (stringIterator v) \<rparr>)"

section \<open>The query interpreter\<close>

text \<open>
  The filters object of the source: a field that was never assigned is \<open>undefined\<close>,
  here \<open>None\<close>. The numeric fields are JavaScript numbers; they are integers here, exact
  below \<open>2^53\<close>. The fields \<open>is_palindrome\<close> and \<open>word_count\<close> of the filters carry the
  suffix \<open>_f\<close>, the plain names being the fields of the properties.
\<close>

record filters =
  is_palindrome_f :: "bool option"
  word_count_f :: "int option"
  min_length :: "int option"
  max_length :: "int option"
  contains_character :: "jsstring option"

definition noFilters :: filters where
  \<comment> \<open>\<open>const filters = {}\<close>\<close>
  "noFilters = \<lparr> is_palindrome_f = None, word_count_f = None, min_length = None,
                 max_length = None, contains_character = None \<rparr>"

subsection \<open>The regular expressions\<close>

fun stripPrefix :: "jsstring \<Rightarrow> jsstring \<Rightarrow> jsstring option" where
  \<comment> \<open>matching the literal \<open>p\<close> at the start of \<open>s\<close>: what is left of \<open>s\<close>\<close>
  "stripPrefix [] s = Some s"
| "stripPrefix (p # ps) [] = None"
| "stripPrefix (p # ps) (u # s) = (if u = p then stripPrefix ps s else None)"

fun firstMatch :: "(jsstring \<Rightarrow> 'a option) \<Rightarrow> jsstring \<Rightarrow> 'a option" where
  \<comment> \<open>\<open>str.match(re)\<close> without the \<open>g\<close> flag: the match at the leftmost position that
      has one\<close>
  "firstMatch m [] = m []"
| "firstMatch m (u # s) = (case m (u # s) of Some r \<Rightarrow> Some r | None \<Rightarrow> firstMatch m s)"

definition isDigit :: "code_unit \<Rightarrow> bool" where
  \<comment> \<open>the class \<open>\d\<close>\<close>
  "isDigit u \<longleftrightarrow> 0x30 \<le> u \<and> u \<le> 0x39"

definition isLetter :: "code_unit \<Rightarrow> bool" where
  \<comment> \<open>the class \<open>[a-z]\<close>\<close>
  "isLetter u \<longleftrightarrow> 0x61 \<le> u \<and> u \<le> 0x7A"

definition digitsAfter :: "jsstring \<Rightarrow> jsstring \<Rightarrow> jsstring option" where
  \<comment> \<open>the pattern \<open>kw(\d+)\<close> at the start of \<open>s\<close>: group 1, the longest run of digits\<close>
  "digitsAfter kw s =
     (case stripPrefix kw s of
        None \<Rightarrow> None
      | Some r \<Rightarrow> if takeWhile isDigit r = [] then None else Some (takeWhile isDigit r))"

definition parseInt :: "jsstring \<Rightarrow> int" where
  \<comment> \<open>on a string of decimal digits: the integer they denote. The source computes a
      double, the same number below \<open>2^53\<close> and a rounded one (or \<open>Infinity\<close>) above.\<close>
  "parseInt ds = foldl (\<lambda>n d. 10 * n + (uint d - 0x30)) 0 ds"

definition literal :: "jsstring \<Rightarrow> jsstring \<Rightarrow> jsstring list" where
  "literal p s = (case stripPrefix p s of None \<Rightarrow> [] | Some r \<Rightarrow> [r])"

definition optionally :: "jsstring list \<Rightarrow> jsstring \<Rightarrow> jsstring list" where
  \<comment> \<open>\<open>(?:p1|p2)?\<close>: what is left after \<open>p1\<close>, after \<open>p2\<close>, and after nothing, in the order in
      which the backtracking matcher tries them\<close>
  "optionally ps s = concat (map (\<lambda>p. literal p s) ps) @ [s]"

definition letterGroup :: "jsstring \<Rightarrow> jsstring list" where
  \<comment> \<open>\<open>([a-z])\<close>: the captured letter\<close>
  "letterGroup s = (case s of [] \<Rightarrow> [] | u # _ \<Rightarrow> if isLetter u then [[u]] else [])"

definition containsAt :: "jsstring \<Rightarrow> jsstring option" where
  \<comment> \<open>\<open>/contain(?:s|ing)? (?:the letter |the character )?([a-z])/\<close> at the start of \<open>s\<close>:
      group 1 of the first alternative that matches to the end\<close>
  "containsAt s =
     (case [c. r1 \<leftarrow> literal (js ''contain'') s,
               r2 \<leftarrow> optionally [js ''s'', js ''ing''] r1,
               r3 \<leftarrow> literal (js '' '') r2,
               r4 \<leftarrow> optionally [js ''the letter '', js ''the character ''] r3,
               c \<leftarrow> letterGroup r4]
      of [] \<Rightarrow> None | c # _ \<Rightarrow> Some c)"

subsection \<open>parseNaturalLanguage\<close>

definition parseNaturalLanguage :: "lowercase_mapping \<Rightarrow> jsstring \<Rightarrow> filters" where
  "parseNaturalLanguage U query =
     (let lowerQuery = toLowerCase U query;
          f0 = noFilters;
          f1 = (if includes_str lowerQuery (js ''palindrome'') \<or>
                   includes_str lowerQuery (js ''palindromic'')
                then f0\<lparr>is_palindrome_f := Some True\<rparr> else f0);
          f2 = (if includes_str lowerQuery (js ''single word'')
                then f1\<lparr>word_count_f := Some 1\<rparr>
                else if includes_str lowerQuery (js ''two word'') \<or>
                        includes_str lowerQuery (js ''2 word'')
                then f1\<lparr>word_count_f := Some 2\<rparr>
                else if includes_str lowerQuery (js ''three word'') \<or>
                        includes_str lowerQuery (js ''3 word'')
                then f1\<lparr>word_count_f := Some 3\<rparr>
                else f1);
          longerThanMatch = firstMatch (digitsAfter (js ''longer than '')) lowerQuery;
          f3 = (case longerThanMatch of
                  Some g \<Rightarrow> f2\<lparr>min_length := Some (parseInt g + 1)\<rparr>
                | None \<Rightarrow> f2);
          shorterThanMatch = firstMatch (digitsAfter (js ''shorter than '')) lowerQuery;
          f4 = (case shorterThanMatch of
                  Some g \<Rightarrow> f3\<lparr>max_length := Some (parseInt g - 1)\<rparr>
                | None \<Rightarrow> f3);
          containsMatch = firstMatch containsAt lowerQuery;
          f5 = (case containsMatch of
                  Some g \<Rightarrow> f4\<lparr>contains_character := Some g\<rparr>
                | None \<Rightarrow> f4);
          f6 = (if includes_str lowerQuery (js ''first vowel'')
                then f5\<lparr>contains_character := Some (js ''a'')\<rparr>
                else if includes_str lowerQuery (js ''second vowel'')
                then f5\<lparr>contains_character := Some (js ''e'')\<rparr>
                else f5)
      in f6)"

section \<open>The filter evaluator\<close>

text \<open>
  A stored string, as the routes build it: \<open>{id, value, properties, created_at}\<close>.
\<close>

record item =
  item_id :: jsstring
  item_value :: jsstring
  item_properties :: properties
  created_at :: jsstring

definition keeps :: "lowercase_mapping \<Rightarrow> filters \<Rightarrow> item \<Rightarrow> bool" where
  \<comment> \<open>the callback of \<open>strings.filter\<close>: each check returns false early\<close>
  "keeps U fs it =
     (let props = item_properties it; v = item_value it in
      if (case is_palindrome_f fs of None \<Rightarrow> False | Some b \<Rightarrow> is_palindrome props \<noteq> b)
      then False
      else if (case min_length fs of None \<Rightarrow> False | Some n \<Rightarrow> int (length_prop props) < n)
      then False
      else if (case max_length fs of None \<Rightarrow> False | Some n \<Rightarrow> int (length_prop props) > n)
      then False
      else if (case word_count_f fs of None \<Rightarrow> False | Some n \<Rightarrow> int (word_count props) \<noteq> n)
      then False
      else if (case contains_character fs of None \<Rightarrow> False
               | Some c \<Rightarrow> \<not> includes_str (toLowerCase U v) (toLowerCase U c))
      then False
      else True)"

definition applyFilters :: "lowercase_mapping \<Rightarrow> item list \<Rightarrow> filters \<Rightarrow> item list" where
  "applyFilters U strings fs = filter (keeps U fs) strings"

section \<open>The store\<close>

text \<open>
  \<open>POST /strings\<close>. The store \<open>stringsDatabase\<close> is a map from the fingerprint to the
  stored string. The value of the request body is absent or falsy (answered 400), of
  another type than string (422), or a string; a string whose fingerprint is a key of
  the store is answered 409 \<open>String already exists in the system\<close>, any other string is
  stored under its fingerprint and answered 201. \<open>now\<close> is the time stamp
  \<open>new Date().toISOString()\<close>. Nothing in the handler throws on these values, so the
  answer 500 of its \<open>catch\<close> is not reached.
\<close>

datatype body_value = Missing | NotString | Str jsstring

datatype response = BadRequest | UnprocessableEntity | Conflict | Created item

type_synonym database = "jsstring \<rightharpoonup> item"

definition post_strings ::
  "lowercase_mapping \<Rightarrow> (byte list \<Rightarrow> byte list) \<Rightarrow> jsstring \<Rightarrow> database \<Rightarrow> body_value
     \<Rightarrow> response \<times> database" where
  "post_strings U H now stringsDatabase body =
     (case body of
        Missing \<Rightarrow> (BadRequest, stringsDatabase)
      | NotString \<Rightarrow> (UnprocessableEntity, stringsDatabase)
      | Str v \<Rightarrow>
          (let props = analyzeString U H v;
               ident = sha256_hash props
           in if stringsDatabase ident \<noteq> None then (Conflict, stringsDatabase)
              else
                (let stringData = \<lparr>item_id = ident, item_value = v, item_properties = props,
                                     created_at = now\<rparr>
                 in (Created stringData, stringsDatabase(ident \<mapsto> stringData)))))"

section \<open>What the specification says\<close>

text \<open>The normalized copy of a string: lowercased, every character outside \<open>[a-z0-9]\<close> removed.\<close>

definition normalized :: "lowercase_mapping \<Rightarrow> jsstring \<Rightarrow> jsstring" where
  "normalized U s =
     filter (\<lambda>u. u \<in> set (js ''abcdefghijklmnopqrstuvwxyz0123456789'')) (toLowerCase U s)"

text \<open>
  The words of a string: its maximal runs of characters that are not whitespace. Each
  starts at a position that holds a character that is not whitespace, and that is the
  first position or follows whitespace.
\<close>

definition wordStart :: "jsstring \<Rightarrow> nat \<Rightarrow> bool" where
  "wordStart t i \<longleftrightarrow> \<not> isWhiteSpace (t ! i) \<and> (i = 0 \<or> isWhiteSpace (t ! (i - 1)))"

definition countWords :: "jsstring \<Rightarrow> nat" where
  "countWords t = length (filter (wordStart t) [0..<length t])"

text \<open>A record satisfies the criteria when it satisfies every criterion that is present.\<close>

definition satisfies :: "lowercase_mapping \<Rightarrow> filters \<Rightarrow> item \<Rightarrow> bool" where
  "satisfies U fs it \<longleftrightarrow>
     (case is_palindrome_f fs of None \<Rightarrow> True
      | Some b \<Rightarrow> is_palindrome (item_properties it) = b) \<and>
     (case min_length fs of None \<Rightarrow> True
      | Some n \<Rightarrow> n \<le> int (length_prop (item_properties it))) \<and>
     (case max_length fs of None \<Rightarrow> True
      | Some n \<Rightarrow> int (length_prop (item_properties it)) \<le> n) \<and>
     (case word_count_f fs of None \<Rightarrow> True
      | Some n \<Rightarrow> int (word_count (item_properties it)) = n) \<and>
     (case contains_character fs of None \<Rightarrow> True
      | Some c \<Rightarrow> includes_str (toLowerCase U (item_value it)) (toLowerCase U c))"

text \<open>The patterns of the interpreter, on the lowercased phrase.\<close>

definition anyPatternMatches :: "jsstring \<Rightarrow> bool" where
  "anyPatternMatches q \<longleftrightarrow>
     includes_str q (js ''palindrome'') \<or> includes_str q (js ''palindromic'') \<or>
     includes_str q (js ''single word'') \<or>
     includes_str q (js ''two word'') \<or> includes_str q (js ''2 word'') \<or>
     includes_str q (js ''three word'') \<or> includes_str q (js ''3 word'') \<or>
     firstMatch (digitsAfter (js ''longer than '')) q \<noteq> None \<or>
     firstMatch (digitsAfter (js ''shorter than '')) q \<noteq> None \<or>
     firstMatch containsAt q \<noteq> None \<or>
     includes_str q (js ''first vowel'') \<or> includes_str q (js ''second vowel'')"

text \<open>The surrogate pairs of a string: the elements of its iterator that take two code units.\<close>

definition surrogatePairs :: "jsstring \<Rightarrow> nat" where
  "surrogatePairs s = length (filter (\<lambda>cp. length cp = 2) (stringIterator s))"

section \<open>Auxiliary functions of the proofs\<close>

text \<open>
  The word starts of a string, read from left to right: \<open>b\<close> says whether a character
  that is not whitespace would start a word at the head of the string.
\<close>

fun wordStartsFrom :: "bool \<Rightarrow> jsstring \<Rightarrow> nat" where
  "wordStartsFrom b [] = 0"
| "wordStartsFrom b (u # r) =
     (if \<not> isWhiteSpace u \<and> b then 1 else 0) + wordStartsFrom (isWhiteSpace u) r"

text \<open>
  Strings without an unpaired surrogate, and the first code point of a UTF-8 byte
  sequence with the bytes after it.
\<close>

definition scalarValue :: "jsstring \<Rightarrow> bool" where
  "scalarValue cp = (case cp of [u] \<Rightarrow> \<not> isHighSurrogate u \<and> \<not> isLowSurrogate u | _ \<Rightarrow> True)"

definition wellFormed :: "jsstring \<Rightarrow> bool" where
  "wellFormed s = list_all scalarValue (stringIterator s)"

definition decodeFirst :: "byte list \<Rightarrow> nat \<times> byte list" where
  "decodeFirst bs =
     (case bs of
        [] \<Rightarrow> (0, [])
      | b0 # r0 \<Rightarrow>
          if unat b0 < 0x80 then (unat b0, r0)
          else if unat b0 < 0xE0 then
            (case r0 of
               b1 # r1 \<Rightarrow> ((unat b0 - 0xC0) * 0x40 + (unat b1 - 0x80), r1)
             | _ \<Rightarrow> (0, []))
          else if unat b0 < 0xF0 then
            (case r0 of
               b1 # b2 # r2 \<Rightarrow>
                 ((unat b0 - 0xE0) * 0x1000 + (unat b1 - 0x80) * 0x40 + (unat b2 - 0x80), r2)
             | _ \<Rightarrow> (0, []))
          else
            (case r0 of
               b1 # b2 # b3 # r3 \<Rightarrow>
                 ((unat b0 - 0xF0) * 0x40000 + (unat b1 - 0x80) * 0x1000
                    + (unat b2 - 0x80) * 0x40 + (unat b3 - 0x80), r3)
             | _ \<Rightarrow> (0, [])))"

section \<open>Properties of the analyzer\<close>

subsection \<open>The fields of the result\<close>

lemma analyzeString_length: "length_prop (analyzeString U H v) = length v"
  by (simp add: analyzeString_def Let_def)

lemma analyzeString_map:
  "character_frequency_map (analyzeString U H v) = foldl countChar [] (stringIterator v)"
  by (simp add: analyzeString_def Let_def)

lemma analyzeString_unique:
  "unique_characters (analyzeString U H v) = length (newSet (stringIterator v))"
  by (simp add: analyzeString_def Let_def)

lemma analyzeString_palindrome:
  "is_palindrome (analyzeString U H v) \<longleftrightarrow>
     removeNonAlnum (toLowerCase U v) = join (rev (split_chars (removeNonAlnum (toLowerCase U v))))"
  by (simp add: analyzeString_def Let_def)

lemma analyzeString_word_count:
  "word_count (analyzeString U H v) =
     length (filter (\<lambda>word. length word > 0) (splitWhiteSpace [] (trim v)))"
  by (simp add: analyzeString_def Let_def)

lemma analyzeString_hash: "sha256_hash (analyzeString U H v) = computeHash H v"
  by (simp add: analyzeString_def Let_def)

subsection \<open>The string iterator\<close>

lemma concat_stringIterator: "concat (stringIterator s) = s"
  by (induction s rule: stringIterator.induct) auto

lemma length_stringIterator:
  "length (stringIterator s) + length (filter (\<lambda>cp. length cp = 2) (stringIterator s)) = length s"
  by (induction s rule: stringIterator.induct) auto

lemma ascii_not_high: "u < 0x80 \<Longrightarrow> \<not> isHighSurrogate u"
  by (simp add: isHighSurrogate_def word_less_nat_alt word_le_nat_alt)

lemma stringIterator_ascii:
  "list_all (\<lambda>u. u < 0x80) s \<Longrightarrow> stringIterator s = map (\<lambda>u. [u]) s"
  by (induction s rule: stringIterator.induct) (auto simp: ascii_not_high)

subsection \<open>The keys and the counts of the frequency map\<close>

lemma keys_assign:
  "map fst (assign m k v) = (if k \<in> fst ` set m then map fst m else map fst m @ [k])"
  by (induction m) (force split: if_splits)+

lemma keys_countChar: "map fst (countChar m k) = set_add (map fst m) k"
  by (simp add: countChar_def keys_assign set_add_def)

lemma keys_foldl_countChar:
  "map fst (foldl countChar m cps) = foldl set_add (map fst m) cps"
  by (induction cps arbitrary: m) (simp_all add: keys_countChar)

lemma distinct_foldl_set_add: "distinct S \<Longrightarrow> distinct (foldl set_add S xs)"
  by (induction xs arbitrary: S) (simp_all add: set_add_def)

lemma set_foldl_set_add: "set (foldl set_add S xs) = set S \<union> set xs"
  by (induction xs arbitrary: S) (auto simp: set_add_def)

lemma map_of_assign: "map_of (assign m k v) = (map_of m)(k \<mapsto> v)"
  by (induction m) (auto simp: fun_eq_iff)

lemma sum_assign:
  "sum_list (map snd (assign m k v)) + (case map_of m k of None \<Rightarrow> 0 | Some c \<Rightarrow> c)
     = sum_list (map snd m) + (v::nat)"
  by (induction m) auto

lemma sum_countChar: "sum_list (map snd (countChar m k)) = sum_list (map snd m) + 1"
  using sum_assign [of m k "(case map_of m k of None \<Rightarrow> 0 | Some c \<Rightarrow> c) + 1"]
  by (simp add: countChar_def)

lemma sum_foldl_countChar:
  "sum_list (map snd (foldl countChar m cps)) = sum_list (map snd m) + length cps"
  by (induction cps arbitrary: m) (simp_all add: sum_countChar)

lemma map_of_countChar:
  "map_of (countChar m k) =
     (map_of m)(k \<mapsto> (case map_of m k of None \<Rightarrow> 0 | Some c \<Rightarrow> c) + 1)"
  by (simp add: countChar_def map_of_assign)

lemma count_foldl_countChar:
  "(case map_of (foldl countChar m cps) k of None \<Rightarrow> 0 | Some c \<Rightarrow> c)
     = (case map_of m k of None \<Rightarrow> 0 | Some c \<Rightarrow> c) + count_list cps k"
  by (induction cps arbitrary: m) (auto simp: map_of_countChar)

lemma dom_foldl_countChar:
  "dom (map_of (foldl countChar m cps)) = dom (map_of m) \<union> set cps"
  by (induction cps arbitrary: m) (auto simp: map_of_countChar)

lemma map_of_frequency:
  "map_of (foldl countChar [] cps) k =
     (if k \<in> set cps then Some (count_list cps k) else None)"
proof (cases "k \<in> set cps")
  case True
  then have "k \<in> dom (map_of (foldl countChar [] cps))"
    by (simp add: dom_foldl_countChar)
  then obtain c where c: "map_of (foldl countChar [] cps) k = Some c"
    by blast
  with count_foldl_countChar [of "[]" cps k] True show ?thesis
    by simp
next
  case False
  then have "k \<notin> dom (map_of (foldl countChar [] cps))"
    by (simp add: dom_foldl_countChar)
  with False show ?thesis
    by (simp add: domIff)
qed

text \<open>
  C10. The number of unique characters is the number of distinct keys of the frequency
  map: both walk the string by code points, and the keys are the distinct elements of
  that walk.
\<close>

theorem unique_characters_eq_keys:
  "unique_characters (analyzeString U H s)
     = card (fst ` set (character_frequency_map (analyzeString U H s)))
   \<and> fst ` set (character_frequency_map (analyzeString U H s)) = set (stringIterator s)"
proof -
  let ?m = "foldl countChar [] (stringIterator s)"
  have keys: "map fst ?m = newSet (stringIterator s)"
    by (simp add: keys_foldl_countChar newSet_def)
  have "distinct (newSet (stringIterator s))"
    by (simp add: newSet_def distinct_foldl_set_add)
  then have "card (set (newSet (stringIterator s))) = length (newSet (stringIterator s))"
    by (rule distinct_card)
  moreover have "fst ` set ?m = set (newSet (stringIterator s))"
    using keys by (metis set_map)
  moreover have "set (newSet (stringIterator s)) = set (stringIterator s)"
    by (simp add: newSet_def set_foldl_set_add)
  ultimately show ?thesis
    by (simp add: analyzeString_unique analyzeString_map)
qed

text \<open>
  C1, as the specification states it, fails: a surrogate pair is two units of the length
  and one character of the frequency map. For the string of the one character U+1F600
  the counts sum to 1 and the length is 2.
\<close>

theorem frequency_sum_counterexample:
  "\<forall>U H. sum_list (map snd (character_frequency_map (analyzeString U H [0xD83D, 0xDE00]))) = 1
     \<and> length_prop (analyzeString U H [0xD83D, 0xDE00]) = 2
     \<and> sum_list (map snd (character_frequency_map (analyzeString U H [0xD83D, 0xDE00])))
         \<noteq> length_prop (analyzeString U H [0xD83D, 0xDE00])"
  by (simp add: analyzeString_length analyzeString_map isHighSurrogate_def
      isLowSurrogate_def countChar_def)

text \<open>
  C1, amended. The length is the number of code units of the string. The frequency map
  counts every element of the string iterator (every code point, whitespace and
  punctuation too, case-sensitive, none left out), so its values sum to the length less
  the number of surrogate pairs: to the length itself when the string has no surrogate
  pair.
\<close>

theorem frequency_sum_code_points:
  "length_prop (analyzeString U H s) = length s
   \<and> sum_list (map snd (character_frequency_map (analyzeString U H s))) + surrogatePairs s
       = length_prop (analyzeString U H s)
   \<and> map_of (character_frequency_map (analyzeString U H s)) cp
       = (if cp \<in> set (stringIterator s) then Some (count_list (stringIterator s) cp) else None)"
  using length_stringIterator [of s]
  by (simp add: analyzeString_length analyzeString_map sum_foldl_countChar
      surrogatePairs_def map_of_frequency)

subsection \<open>Lowercasing ASCII\<close>

lemma lower_ascii_aux:
  "list_all (\<lambda>u. u < 0x80) s \<Longrightarrow>
   concat (map (lowerCodePoint U t) (enumerate n (map (\<lambda>u. [u]) s))) = map asciiLower s"
  by (induction s arbitrary: n) auto

lemma toLowerCase_ascii:
  "list_all (\<lambda>u. u < 0x80) s \<Longrightarrow> toLowerCase U s = map asciiLower s"
  by (simp add: toLowerCase_def stringIterator_ascii lower_ascii_aux)

subsection \<open>The palindrome flag\<close>

lemma removeNonAlnum_filter: "removeNonAlnum s = filter isAlnum s"
  by (induction s) auto

lemma class_codes:
  "map of_char ''abcdefghijklmnopqrstuvwxyz0123456789'' = [97..<123] @ [48..<58::nat]"
  by code_simp

lemma js_of_nat: "js cs = map (\<lambda>c. of_nat (of_char c)) cs"
  by (simp add: js_def of_nat_of_char)

lemma isAlnum_class:
  "isAlnum u \<longleftrightarrow> u \<in> set (js ''abcdefghijklmnopqrstuvwxyz0123456789'')"
proof -
  have "set (js ''abcdefghijklmnopqrstuvwxyz0123456789'')
      = of_nat ` set (map of_char ''abcdefghijklmnopqrstuvwxyz0123456789'' :: nat list)"
    unfolding js_of_nat by (simp only: set_map image_image)
  also have "\<dots> = of_nat ` ({97..<123} \<union> {48..<58})"
    by (simp only: class_codes set_append set_upt)
  finally have "u \<in> set (js ''abcdefghijklmnopqrstuvwxyz0123456789'')
      \<longleftrightarrow> (\<exists>n. (97 \<le> n \<and> n < 123 \<or> 48 \<le> n \<and> n < 58) \<and> u = of_nat n)"
    by auto
  also have "\<dots> \<longleftrightarrow> (97 \<le> unat u \<and> unat u < 123 \<or> 48 \<le> unat u \<and> unat u < 58)"
  proof
    assume "\<exists>n. (97 \<le> n \<and> n < 123 \<or> 48 \<le> n \<and> n < 58) \<and> u = of_nat n"
    then obtain n where n: "97 \<le> n \<and> n < 123 \<or> 48 \<le> n \<and> n < 58" and u: "u = of_nat n"
      by blast
    from n have "n < 2 ^ 16" by auto
    then have "unat u = n" by (simp add: u unat_of_nat)
    with n show "97 \<le> unat u \<and> unat u < 123 \<or> 48 \<le> unat u \<and> unat u < 58" by simp
  next
    assume "97 \<le> unat u \<and> unat u < 123 \<or> 48 \<le> unat u \<and> unat u < 58"
    moreover have "u = of_nat (unat u)" by simp
    ultimately show "\<exists>n. (97 \<le> n \<and> n < 123 \<or> 48 \<le> n \<and> n < 58) \<and> u = of_nat n"
      by blast
  qed
  also have "\<dots> \<longleftrightarrow> isAlnum u"
    by (auto simp: isAlnum_def word_le_nat_alt)
  finally show ?thesis by simp
qed

lemma join_rev_split: "join (rev (split_chars s)) = rev s"
  by (induction s) (simp_all add: join_def split_chars_def)

lemma palindrome_normalized:
  "is_palindrome (analyzeString U H s) \<longleftrightarrow> normalized U s = rev (normalized U s)"
  by (simp add: analyzeString_palindrome join_rev_split removeNonAlnum_filter normalized_def
      isAlnum_class [abs_def])

lemma palindrome_ascii:
  assumes "list_all (\<lambda>u. u < 0x80) s"
  shows "is_palindrome (analyzeString U H s) \<longleftrightarrow>
         removeNonAlnum (map asciiLower s) = rev (removeNonAlnum (map asciiLower s))"
  by (simp only: analyzeString_palindrome toLowerCase_ascii [OF assms] join_rev_split)

lemma palindrome_empty: "is_palindrome (analyzeString U H (js ''''))"
proof -
  have "list_all (\<lambda>u. u < 0x80) (js '''')"
    by code_simp
  moreover have "removeNonAlnum (map asciiLower (js ''''))
      = rev (removeNonAlnum (map asciiLower (js '''')))"
    by code_simp
  ultimately show ?thesis
    by (simp only: palindrome_ascii)
qed

lemma palindrome_racecar: "is_palindrome (analyzeString U H (js ''racecar''))"
proof -
  have "list_all (\<lambda>u. u < 0x80) (js ''racecar'')"
    by code_simp
  moreover have "removeNonAlnum (map asciiLower (js ''racecar''))
      = rev (removeNonAlnum (map asciiLower (js ''racecar'')))"
    by code_simp
  ultimately show ?thesis
    by (simp only: palindrome_ascii)
qed

lemma palindrome_panama:
  "is_palindrome (analyzeString U H (js ''A man a plan a canal Panama''))"
proof -
  have "list_all (\<lambda>u. u < 0x80) (js ''A man a plan a canal Panama'')"
    by code_simp
  moreover have "removeNonAlnum (map asciiLower (js ''A man a plan a canal Panama''))
      = rev (removeNonAlnum (map asciiLower (js ''A man a plan a canal Panama'')))"
    by code_simp
  ultimately show ?thesis
    by (simp only: palindrome_ascii)
qed

lemma palindrome_hello: "\<not> is_palindrome (analyzeString U H (js ''hello''))"
proof -
  have "list_all (\<lambda>u. u < 0x80) (js ''hello'')"
    by code_simp
  moreover have "removeNonAlnum (map asciiLower (js ''hello''))
      \<noteq> rev (removeNonAlnum (map asciiLower (js ''hello'')))"
    by code_simp
  ultimately show ?thesis
    by (simp only: palindrome_ascii simp_thms)
qed

text \<open>
  C2. The palindrome flag is true exactly when the normalized copy of the string
  (lowercased, every character outside \<open>[a-z0-9]\<close> removed) equals its own reversal.
  An empty normalized copy gives true, as the empty string does; \<open>racecar\<close> and
  \<open>A man a plan a canal Panama\<close> give true and \<open>hello\<close> gives false.
\<close>

theorem is_palindrome_normalized:
  "(is_palindrome (analyzeString U H s) \<longleftrightarrow> normalized U s = rev (normalized U s))
   \<and> (normalized U s = [] \<longrightarrow> is_palindrome (analyzeString U H s))
   \<and> is_palindrome (analyzeString U H (js ''''))
   \<and> is_palindrome (analyzeString U H (js ''racecar''))
   \<and> is_palindrome (analyzeString U H (js ''A man a plan a canal Panama''))
   \<and> \<not> is_palindrome (analyzeString U H (js ''hello''))"
  using palindrome_empty palindrome_racecar palindrome_panama palindrome_hello
  by (simp add: palindrome_normalized)

theorem is_palindrome_normalized_witness:
  "\<forall>U H. normalized U (js ''?! ?'') = [] \<and> is_palindrome (analyzeString U H (js ''?! ?''))"
proof (intro allI)
  fix U :: lowercase_mapping and H :: "byte list \<Rightarrow> byte list"
  have "list_all (\<lambda>u. u < 0x80) (js ''?! ?'')"
    by code_simp
  then have "toLowerCase U (js ''?! ?'') = map asciiLower (js ''?! ?'')"
    by (rule toLowerCase_ascii)
  moreover have "filter (\<lambda>u. u \<in> set (js ''abcdefghijklmnopqrstuvwxyz0123456789''))
      (map asciiLower (js ''?! ?'')) = []"
    by code_simp
  ultimately have empty: "normalized U (js ''?! ?'') = []"
    by (simp only: normalized_def)
  with is_palindrome_normalized [of U H "js ''?! ?''"]
  show "normalized U (js ''?! ?'') = [] \<and> is_palindrome (analyzeString U H (js ''?! ?''))"
    by blast
qed

subsection \<open>The word count\<close>

lemma starts_index:
  "length (filter (\<lambda>i. \<not> isWhiteSpace (t ! i) \<and>
                       (if i = 0 then b else isWhiteSpace (t ! (i - 1)))) [0..<length t])
     = wordStartsFrom b t"
proof (induction t arbitrary: b)
  case Nil
  then show ?case by simp
next
  case (Cons u r)
  let ?P = "\<lambda>i. \<not> isWhiteSpace ((u # r) ! i) \<and>
                (if i = 0 then b else isWhiteSpace ((u # r) ! (i - 1)))"
  let ?Q = "\<lambda>i. \<not> isWhiteSpace (r ! i) \<and>
                (if i = 0 then isWhiteSpace u else isWhiteSpace (r ! (i - 1)))"
  have upt: "[0..<length (u # r)] = 0 # map Suc [0..<length r]"
    by (simp add: upt_conv_Cons map_Suc_upt del: upt_Suc)
  have shift: "filter ?P (map Suc [0..<length r]) = map Suc (filter ?Q [0..<length r])"
    unfolding filter_map
    by (rule arg_cong [where f = "map Suc"], rule filter_cong)
       (auto simp: nth_Cons split: nat.splits)
  have "length (filter ?P [0..<length (u # r)])
          = (if ?P 0 then 1 else 0) + length (filter ?Q [0..<length r])"
    unfolding upt by (simp add: shift)
  also have "\<dots> = wordStartsFrom b (u # r)"
    by (simp add: Cons.IH)
  finally show ?case .
qed

lemma countWords_starts: "countWords t = wordStartsFrom True t"
proof -
  have "filter (wordStart t) [0..<length t] =
        filter (\<lambda>i. \<not> isWhiteSpace (t ! i) \<and>
                    (if i = 0 then True else isWhiteSpace (t ! (i - 1)))) [0..<length t]"
    by (rule filter_cong) (auto simp: wordStart_def)
  then show ?thesis
    by (simp add: countWords_def starts_index)
qed

lemma starts_dropWhile:
  "wordStartsFrom True (dropWhile isWhiteSpace s) = wordStartsFrom True s"
  by (induction s) auto

lemma starts_append:
  "wordStartsFrom b (xs @ ys) =
     wordStartsFrom b xs + wordStartsFrom (if xs = [] then b else isWhiteSpace (last xs)) ys"
  by (induction xs arbitrary: b) auto

lemma starts_all_ws: "list_all isWhiteSpace ys \<Longrightarrow> wordStartsFrom b ys = 0"
  by (induction ys arbitrary: b) auto

lemma starts_drop_trailing:
  "wordStartsFrom b (rev (dropWhile isWhiteSpace (rev t))) = wordStartsFrom b t"
proof -
  have "t = rev (dropWhile isWhiteSpace (rev t)) @ rev (takeWhile isWhiteSpace (rev t))"
    by (metis rev_append rev_rev_ident takeWhile_dropWhile_id)
  moreover have "list_all isWhiteSpace (rev (takeWhile isWhiteSpace (rev t)))"
    by (simp add: list_all_iff) (meson set_takeWhileD)
  ultimately show ?thesis
    by (metis starts_append starts_all_ws add.right_neutral)
qed

lemma starts_trim: "wordStartsFrom True (trim s) = wordStartsFrom True s"
  by (simp add: trim_def starts_drop_trailing starts_dropWhile)

lemma split_count:
  "length (filter (\<lambda>w. w \<noteq> []) (splitWhiteSpace cur t))
     = (if cur \<noteq> [] then 1 else 0) + wordStartsFrom (cur = []) t"
  by (induction cur t rule: splitWhiteSpace.induct) (auto simp: starts_dropWhile)

lemma word_count_hello_world:
  "word_count (analyzeString U H (js ''  hello   world  '')) = 2"
proof -
  have "length (filter (\<lambda>word. length word > 0)
          (splitWhiteSpace [] (trim (js ''  hello   world  '')))) = 2"
    by code_simp
  then show ?thesis
    by (simp only: analyzeString_word_count)
qed

lemma word_count_empty: "word_count (analyzeString U H (js '''')) = 0"
proof -
  have "length (filter (\<lambda>word. length word > 0) (splitWhiteSpace [] (trim (js '''')))) = 0"
    by code_simp
  then show ?thesis
    by (simp only: analyzeString_word_count)
qed

text \<open>
  C6. The word count is the number of words of the trimmed string, a word being a
  maximal run of characters that are not whitespace (so a run of whitespace of any length
  separates two words once); trimming does not change that number. The string
  \<open>"  hello   world  "\<close> has 2 words and the empty string has none.
\<close>

theorem word_count_words:
  "word_count (analyzeString U H s) = countWords (trim s)
   \<and> countWords (trim s) = countWords s
   \<and> word_count (analyzeString U H (js ''  hello   world  '')) = 2
   \<and> word_count (analyzeString U H (js '''')) = 0"
  using word_count_hello_world word_count_empty
  by (simp add: analyzeString_word_count split_count countWords_starts starts_trim)

section \<open>Properties of the filter evaluator\<close>

lemma keeps_satisfies: "keeps U fs it \<longleftrightarrow> satisfies U fs it"
  by (auto simp: keeps_def satisfies_def Let_def split: option.splits)

lemma keeps_noFilters: "keeps U noFilters it"
  by (simp add: keeps_def noFilters_def)

lemma startsWith_iff: "startsWith s t \<longleftrightarrow> (\<exists>post. s = t @ post)"
  by (induction s t rule: startsWith.induct) auto

lemma includes_str_iff: "includes_str s t \<longleftrightarrow> (\<exists>pre post. s = pre @ t @ post)"
proof (induction s)
  case Nil
  then show ?case by (cases t) auto
next
  case (Cons u s)
  show ?case
  proof
    assume "includes_str (u # s) t"
    then consider "startsWith (u # s) t" | "includes_str s t" by auto
    then show "\<exists>pre post. u # s = pre @ t @ post"
    proof cases
      case 1
      then obtain post where "u # s = [] @ t @ post" by (auto simp: startsWith_iff)
      then show ?thesis by blast
    next
      case 2
      then obtain pre post where "s = pre @ t @ post" using Cons.IH by blast
      then have "u # s = (u # pre) @ t @ post" by simp
      then show ?thesis by blast
    qed
  next
    assume "\<exists>pre post. u # s = pre @ t @ post"
    then obtain pre post where eq: "u # s = pre @ t @ post" by blast
    show "includes_str (u # s) t"
    proof (cases pre)
      case Nil
      with eq have "startsWith (u # s) t" by (auto simp: startsWith_iff)
      then show ?thesis by simp
    next
      case (Cons a pre')
      with eq have "s = pre' @ t @ post" by simp
      then have "includes_str s t" using Cons.IH by blast
      then show ?thesis by simp
    qed
  qed
qed

text \<open>
  C3. The result of the filter is the subsequence, in the order of the input, of the
  records that satisfy every criterion that is present: the palindrome flag and the word
  count by equality, the minimal and the maximal length as inclusive bounds. A criterion
  that is absent constrains nothing, and with no criterion at all the result is the input.
\<close>

theorem applyFilters_satisfies:
  "applyFilters U records fs = filter (satisfies U fs) records
   \<and> subseq (applyFilters U records fs) records
   \<and> applyFilters U records noFilters = records"
proof -
  have "applyFilters U records fs = filter (satisfies U fs) records"
    by (simp add: applyFilters_def keeps_satisfies [abs_def])
  moreover have "subseq (applyFilters U records fs) records"
    by (simp add: applyFilters_def)
  moreover have "applyFilters U records noFilters = records"
    by (simp add: applyFilters_def keeps_noFilters)
  ultimately show ?thesis
    by blast
qed

text \<open>
  C5. When the criterion \<open>contains_character\<close> is present, a record passes the filter
  exactly when it passes the other criteria and its content, lowercased, contains the
  lowercased character. The check reads the content of the record and none of its
  properties: with this criterion alone, the record passes exactly when the lowercased
  content contains the lowercased character.
\<close>

theorem contains_character_lowercased:
  "contains_character fs = Some c \<Longrightarrow>
     (keeps U fs it \<longleftrightarrow>
        keeps U (fs\<lparr>contains_character := None\<rparr>) it \<and>
        includes_str (toLowerCase U (item_value it)) (toLowerCase U c))
     \<and> (keeps U (noFilters\<lparr>contains_character := Some c\<rparr>) it \<longleftrightarrow>
          includes_str (toLowerCase U (item_value it)) (toLowerCase U c))
     \<and> (includes_str (toLowerCase U (item_value it)) (toLowerCase U c) \<longleftrightarrow>
          (\<exists>pre post. toLowerCase U (item_value it) = pre @ toLowerCase U c @ post))"
proof -
  assume present: "contains_character fs = Some c"
  have "keeps U fs it \<longleftrightarrow>
        keeps U (fs\<lparr>contains_character := None\<rparr>) it \<and>
        includes_str (toLowerCase U (item_value it)) (toLowerCase U c)"
    using present by (auto simp: keeps_def Let_def split: option.splits)
  moreover have "keeps U (noFilters\<lparr>contains_character := Some c\<rparr>) it \<longleftrightarrow>
        includes_str (toLowerCase U (item_value it)) (toLowerCase U c)"
    by (simp add: keeps_def noFilters_def)
  ultimately show ?thesis
    using includes_str_iff by blast
qed

theorem contains_character_lowercased_witness:
  "\<forall>U H. contains_character (noFilters\<lparr>min_length := Some 3, contains_character := Some (js ''L'')\<rparr>)
             = Some (js ''L'')
     \<and> keeps U (noFilters\<lparr>min_length := Some 3, contains_character := Some (js ''L'')\<rparr>)
          \<lparr>item_id = computeHash H (js ''Hello''), item_value = js ''Hello'',
           item_properties = analyzeString U H (js ''Hello''), created_at = []\<rparr>"
proof (intro allI)
  fix U :: lowercase_mapping and H :: "byte list \<Rightarrow> byte list"
  let ?fs = "noFilters\<lparr>min_length := Some 3, contains_character := Some (js ''L'')\<rparr>"
  let ?it = "\<lparr>item_id = computeHash H (js ''Hello''), item_value = js ''Hello'',
              item_properties = analyzeString U H (js ''Hello''), created_at = []\<rparr>"
  have present: "contains_character ?fs = Some (js ''L'')"
    by simp
  have "list_all (\<lambda>u. u < 0x80) (js ''Hello'')" and "list_all (\<lambda>u. u < 0x80) (js ''L'')"
    by code_simp+
  then have low: "toLowerCase U (js ''Hello'') = map asciiLower (js ''Hello'')"
      "toLowerCase U (js ''L'') = map asciiLower (js ''L'')"
    by (simp_all only: toLowerCase_ascii)
  have "includes_str (map asciiLower (js ''Hello'')) (map asciiLower (js ''L''))"
    by code_simp
  then have inc: "includes_str (toLowerCase U (item_value ?it)) (toLowerCase U (js ''L''))"
    by (simp add: low)
  have "length (js ''Hello'') = 5"
    by (simp add: js_def)
  then have rest: "keeps U (?fs\<lparr>contains_character := None\<rparr>) ?it"
    by (simp add: keeps_def noFilters_def analyzeString_length)
  from contains_character_lowercased [OF present, of U ?it] rest inc
  have "keeps U ?fs ?it"
    by blast
  with present show "contains_character ?fs = Some (js ''L'') \<and> keeps U ?fs ?it"
    by blast
qed

section \<open>Properties of the query interpreter\<close>

subsection \<open>The fields of the result\<close>

lemma parse_fields:
  "is_palindrome_f (parseNaturalLanguage U q) =
     (if includes_str (toLowerCase U q) (js ''palindrome'') \<or>
         includes_str (toLowerCase U q) (js ''palindromic'') then Some True else None)"
  "word_count_f (parseNaturalLanguage U q) =
     (if includes_str (toLowerCase U q) (js ''single word'') then Some 1
      else if includes_str (toLowerCase U q) (js ''two word'') \<or>
              includes_str (toLowerCase U q) (js ''2 word'') then Some 2
      else if includes_str (toLowerCase U q) (js ''three word'') \<or>
              includes_str (toLowerCase U q) (js ''3 word'') then Some 3
      else None)"
  "min_length (parseNaturalLanguage U q) =
     map_option (\<lambda>g. parseInt g + 1)
       (firstMatch (digitsAfter (js ''longer than '')) (toLowerCase U q))"
  "max_length (parseNaturalLanguage U q) =
     map_option (\<lambda>g. parseInt g - 1)
       (firstMatch (digitsAfter (js ''shorter than '')) (toLowerCase U q))"
  "contains_character (parseNaturalLanguage U q) =
     (if includes_str (toLowerCase U q) (js ''first vowel'') then Some (js ''a'')
      else if includes_str (toLowerCase U q) (js ''second vowel'') then Some (js ''e'')
      else firstMatch containsAt (toLowerCase U q))"
proof -
  define lq where "lq = toLowerCase U q"
  define f1 where "f1 = (if includes_str lq (js ''palindrome'') \<or>
                   includes_str lq (js ''palindromic'')
                then noFilters\<lparr>is_palindrome_f := Some True\<rparr> else noFilters)"
  define f2 where "f2 = (if includes_str lq (js ''single word'')
                then f1\<lparr>word_count_f := Some 1\<rparr>
                else if includes_str lq (js ''two word'') \<or>
                        includes_str lq (js ''2 word'')
                then f1\<lparr>word_count_f := Some 2\<rparr>
                else if includes_str lq (js ''three word'') \<or>
                        includes_str lq (js ''3 word'')
                then f1\<lparr>word_count_f := Some 3\<rparr>
                else f1)"
  define f3 where "f3 = (case firstMatch (digitsAfter (js ''longer than '')) lq of
                  Some g \<Rightarrow> f2\<lparr>min_length := Some (parseInt g + 1)\<rparr>
                | None \<Rightarrow> f2)"
  define f4 where "f4 = (case firstMatch (digitsAfter (js ''shorter than '')) lq of
                  Some g \<Rightarrow> f3\<lparr>max_length := Some (parseInt g - 1)\<rparr>
                | None \<Rightarrow> f3)"
  define f5 where "f5 = (case firstMatch containsAt lq of
                  Some g \<Rightarrow> f4\<lparr>contains_character := Some g\<rparr>
                | None \<Rightarrow> f4)"
  define f6 where "f6 = (if includes_str lq (js ''first vowel'')
                then f5\<lparr>contains_character := Some (js ''a'')\<rparr>
                else if includes_str lq (js ''second vowel'')
                then f5\<lparr>contains_character := Some (js ''e'')\<rparr>
                else f5)"
  have parse: "parseNaturalLanguage U q = f6"
    unfolding parseNaturalLanguage_def Let_def f6_def f5_def f4_def f3_def f2_def f1_def lq_def
    by (rule refl)
  have pal1: "is_palindrome_f f1 = (if includes_str lq (js ''palindrome'') \<or>
         includes_str lq (js ''palindromic'') then Some True else None)"
    and f1: "word_count_f f1 = None" "min_length f1 = None" "max_length f1 = None"
      "contains_character f1 = None"
    by (simp_all add: f1_def noFilters_def)
  have wc2: "word_count_f f2 =
     (if includes_str lq (js ''single word'') then Some 1
      else if includes_str lq (js ''two word'') \<or> includes_str lq (js ''2 word'') then Some 2
      else if includes_str lq (js ''three word'') \<or> includes_str lq (js ''3 word'') then Some 3
      else None)"
    and f2: "is_palindrome_f f2 = is_palindrome_f f1" "min_length f2 = None"
      "max_length f2 = None" "contains_character f2 = None"
    by (simp_all add: f2_def f1)
  have min3: "min_length f3 = map_option (\<lambda>g. parseInt g + 1)
       (firstMatch (digitsAfter (js ''longer than '')) lq)"
    and f3: "is_palindrome_f f3 = is_palindrome_f f2" "word_count_f f3 = word_count_f f2"
      "max_length f3 = None" "contains_character f3 = None"
    by (simp_all add: f3_def f2 split: option.split)
  have max4: "max_length f4 = map_option (\<lambda>g. parseInt g - 1)
       (firstMatch (digitsAfter (js ''shorter than '')) lq)"
    and f4: "is_palindrome_f f4 = is_palindrome_f f3" "word_count_f f4 = word_count_f f3"
      "min_length f4 = min_length f3" "contains_character f4 = None"
    by (simp_all add: f4_def f3 split: option.split)
  have c5: "contains_character f5 = firstMatch containsAt lq"
    and f5: "is_palindrome_f f5 = is_palindrome_f f4" "word_count_f f5 = word_count_f f4"
      "min_length f5 = min_length f4" "max_length f5 = max_length f4"
    by (simp_all add: f5_def f4 split: option.split)
  have c6: "contains_character f6 =
     (if includes_str lq (js ''first vowel'') then Some (js ''a'')
      else if includes_str lq (js ''second vowel'') then Some (js ''e'')
      else contains_character f5)"
    and f6: "is_palindrome_f f6 = is_palindrome_f f5" "word_count_f f6 = word_count_f f5"
      "min_length f6 = min_length f5" "max_length f6 = max_length f5"
    by (simp_all add: f6_def)
  show "is_palindrome_f (parseNaturalLanguage U q) =
     (if includes_str (toLowerCase U q) (js ''palindrome'') \<or>
         includes_str (toLowerCase U q) (js ''palindromic'') then Some True else None)"
    by (simp only: parse f6 f5 f4 f3 f2 pal1 lq_def)
  show "word_count_f (parseNaturalLanguage U q) =
     (if includes_str (toLowerCase U q) (js ''single word'') then Some 1
      else if includes_str (toLowerCase U q) (js ''two word'') \<or>
              includes_str (toLowerCase U q) (js ''2 word'') then Some 2
      else if includes_str (toLowerCase U q) (js ''three word'') \<or>
              includes_str (toLowerCase U q) (js ''3 word'') then Some 3
      else None)"
    by (simp only: parse f6 f5 f4 f3 wc2 lq_def)
  show "min_length (parseNaturalLanguage U q) =
     map_option (\<lambda>g. parseInt g + 1)
       (firstMatch (digitsAfter (js ''longer than '')) (toLowerCase U q))"
    by (simp only: parse f6 f5 f4 min3 lq_def)
  show "max_length (parseNaturalLanguage U q) =
     map_option (\<lambda>g. parseInt g - 1)
       (firstMatch (digitsAfter (js ''shorter than '')) (toLowerCase U q))"
    by (simp only: parse f6 f5 max4 lq_def)
  show "contains_character (parseNaturalLanguage U q) =
     (if includes_str (toLowerCase U q) (js ''first vowel'') then Some (js ''a'')
      else if includes_str (toLowerCase U q) (js ''second vowel'') then Some (js ''e'')
      else firstMatch containsAt (toLowerCase U q))"
    by (simp only: parse c6 c5 lq_def)
qed

lemma filters_eq_iff:
  "(f :: filters) = g \<longleftrightarrow>
     is_palindrome_f f = is_palindrome_f g \<and> word_count_f f = word_count_f g
     \<and> min_length f = min_length g \<and> max_length f = max_length g
     \<and> contains_character f = contains_character g"
  by (cases f, cases g) auto

lemma parse_ascii:
  "list_all (\<lambda>u. u < 0x80) q \<Longrightarrow>
     parseNaturalLanguage U q = parseNaturalLanguage (\<lambda>s i. []) q"
  by (simp add: parseNaturalLanguage_def toLowerCase_ascii)

subsection \<open>What the patterns match\<close>

text \<open>
  The matchers above, read as the regular expressions of the source: a pattern matches a
  phrase when some part of the phrase has the shape of the expression.
\<close>

lemma stripPrefix_iff: "stripPrefix p s = Some r \<longleftrightarrow> s = p @ r"
  by (induction p s rule: stripPrefix.induct) auto

lemma set_literal: "set (literal p s) = {r. s = p @ r}"
proof (cases "stripPrefix p s")
  case None
  then have "\<And>r. s \<noteq> p @ r"
    using stripPrefix_iff [of p s] by auto
  with None show ?thesis
    by (simp add: literal_def)
next
  case (Some r)
  then have "s = p @ r"
    by (simp add: stripPrefix_iff)
  with Some show ?thesis
    by (auto simp: literal_def)
qed

lemma set_optionally: "set (optionally ps s) = {r. \<exists>p \<in> set ps. s = p @ r} \<union> {s}"
  by (auto simp: optionally_def set_literal)

lemma set_letterGroup: "set (letterGroup s) = {[u] | u r. s = u # r \<and> isLetter u}"
  by (cases s) (auto simp: letterGroup_def)

lemma firstMatch_iff:
  "firstMatch m s \<noteq> None \<longleftrightarrow> (\<exists>pre suf. s = pre @ suf \<and> m suf \<noteq> None)"
proof (induction s)
  case Nil
  then show ?case by simp
next
  case (Cons u s)
  show ?case
  proof (cases "m (u # s)")
    case (Some r)
    then have "u # s = [] @ (u # s) \<and> m (u # s) \<noteq> None" by simp
    then have "\<exists>pre suf. u # s = pre @ suf \<and> m suf \<noteq> None" by blast
    with Some show ?thesis by simp
  next
    case None
    have "(\<exists>pre suf. u # s = pre @ suf \<and> m suf \<noteq> None)
        \<longleftrightarrow> (\<exists>pre suf. s = pre @ suf \<and> m suf \<noteq> None)"
    proof
      assume "\<exists>pre suf. u # s = pre @ suf \<and> m suf \<noteq> None"
      then obtain pre suf where ps: "u # s = pre @ suf" "m suf \<noteq> None" by blast
      with None obtain pre' where "pre = u # pre'" by (cases pre) auto
      with ps have "s = pre' @ suf" by simp
      with ps(2) show "\<exists>pre suf. s = pre @ suf \<and> m suf \<noteq> None" by blast
    next
      assume "\<exists>pre suf. s = pre @ suf \<and> m suf \<noteq> None"
      then obtain pre suf where "s = pre @ suf" "m suf \<noteq> None" by blast
      then have "u # s = (u # pre) @ suf \<and> m suf \<noteq> None" by simp
      then show "\<exists>pre suf. u # s = pre @ suf \<and> m suf \<noteq> None" by blast
    qed
    with None Cons.IH show ?thesis by simp
  qed
qed

lemma digitsAfter_iff:
  "digitsAfter kw s \<noteq> None \<longleftrightarrow> (\<exists>d r. s = kw @ d # r \<and> isDigit d)"
proof (cases "stripPrefix kw s")
  case None
  then have "\<And>r. s \<noteq> kw @ r"
    using stripPrefix_iff [of kw s] by auto
  with None show ?thesis
    by (auto simp: digitsAfter_def)
next
  case (Some r)
  then have s: "s = kw @ r"
    by (simp add: stripPrefix_iff)
  have "takeWhile isDigit r \<noteq> [] \<longleftrightarrow> (\<exists>d r'. r = d # r' \<and> isDigit d)"
    by (cases r) auto
  with Some s show ?thesis
    by (auto simp: digitsAfter_def)
qed

lemma first_of_list:
  "(case xs of [] \<Rightarrow> None | c # _ \<Rightarrow> Some c) \<noteq> None \<longleftrightarrow> xs \<noteq> []"
  by (cases xs) simp_all

lemma concat_map_nonempty: "concat (map f xs) \<noteq> [] \<longleftrightarrow> (\<exists>x. x \<in> set xs \<and> f x \<noteq> [])"
  by (induction xs) auto

lemma in_literal: "r \<in> set (literal p s) \<longleftrightarrow> s = p @ r"
  by (simp add: set_literal)

lemma in_optionally:
  "r \<in> set (optionally [a, b] s) \<longleftrightarrow> (\<exists>m. m \<in> {a, b, []} \<and> s = m @ r)"
  by (auto simp: set_optionally)

lemma letterGroup_nonempty: "letterGroup s \<noteq> [] \<longleftrightarrow> (\<exists>c r. s = c # r \<and> isLetter c)"
  by (cases s) (simp_all add: letterGroup_def)

lemma containsAt_iff:
  "containsAt s \<noteq> None \<longleftrightarrow>
     (\<exists>mid opt c r.
        mid \<in> {js ''s'', js ''ing'', []} \<and> opt \<in> {js ''the letter '', js ''the character '', []}
        \<and> isLetter c \<and> s = js ''contain'' @ mid @ js '' '' @ opt @ c # r)"
proof -
  have "containsAt s \<noteq> None \<longleftrightarrow>
     (\<exists>r1. s = js ''contain'' @ r1 \<and>
       (\<exists>r2. (\<exists>m. m \<in> {js ''s'', js ''ing'', []} \<and> r1 = m @ r2) \<and>
         (\<exists>r3. r2 = js '' '' @ r3 \<and>
           (\<exists>r4. (\<exists>m. m \<in> {js ''the letter '', js ''the character '', []} \<and> r3 = m @ r4) \<and>
             (\<exists>c r. r4 = c # r \<and> isLetter c)))))"
    unfolding containsAt_def
    by (simp only: first_of_list concat_map_nonempty in_literal in_optionally
        map_is_Nil_conv letterGroup_nonempty)
  also have "\<dots> \<longleftrightarrow>
     (\<exists>mid opt c r.
        mid \<in> {js ''s'', js ''ing'', []} \<and> opt \<in> {js ''the letter '', js ''the character '', []}
        \<and> isLetter c \<and> s = js ''contain'' @ mid @ js '' '' @ opt @ c # r)"
    (is "?L \<longleftrightarrow> ?R")
  proof
    assume ?L
    then obtain r1 r2 r3 r4 m m' c r where
      "s = js ''contain'' @ r1" "m \<in> {js ''s'', js ''ing'', []}" "r1 = m @ r2"
      "r2 = js '' '' @ r3" "m' \<in> {js ''the letter '', js ''the character '', []}"
      "r3 = m' @ r4" "r4 = c # r" "isLetter c"
      by blast
    then have "m \<in> {js ''s'', js ''ing'', []} \<and> m' \<in> {js ''the letter '', js ''the character '', []}
        \<and> isLetter c \<and> s = js ''contain'' @ m @ js '' '' @ m' @ c # r"
      by simp
    then show ?R by blast
  next
    assume ?R
    then obtain mid opt c r where
      m: "mid \<in> {js ''s'', js ''ing'', []}" "opt \<in> {js ''the letter '', js ''the character '', []}"
      and c: "isLetter c" and s: "s = js ''contain'' @ mid @ js '' '' @ opt @ c # r"
      by blast
    show ?L
    proof (intro exI conjI)
      show "s = js ''contain'' @ (mid @ js '' '' @ opt @ c # r)" by (rule s)
      show "mid \<in> {js ''s'', js ''ing'', []}" by (rule m)
      show "mid @ js '' '' @ opt @ c # r = mid @ (js '' '' @ opt @ c # r)" by (rule refl)
      show "js '' '' @ opt @ c # r = js '' '' @ (opt @ c # r)" by (rule refl)
      show "opt \<in> {js ''the letter '', js ''the character '', []}" by (rule m)
      show "opt @ c # r = opt @ (c # r)" by (rule refl)
      show "c # r = c # r" by (rule refl)
      show "isLetter c" by (rule c)
    qed
  qed
  finally show ?thesis .
qed

lemma number_rule_matches:
  "firstMatch (digitsAfter kw) q \<noteq> None \<longleftrightarrow>
     (\<exists>pre d post. isDigit d \<and> q = pre @ kw @ d # post)"
proof -
  have "firstMatch (digitsAfter kw) q \<noteq> None \<longleftrightarrow>
      (\<exists>pre suf. q = pre @ suf \<and> (\<exists>d r. suf = kw @ d # r \<and> isDigit d))"
    by (simp only: firstMatch_iff digitsAfter_iff)
  also have "\<dots> \<longleftrightarrow> (\<exists>pre d post. isDigit d \<and> q = pre @ kw @ d # post)"
    by blast
  finally show ?thesis .
qed

lemma letter_rule_matches:
  "firstMatch containsAt q \<noteq> None \<longleftrightarrow>
     (\<exists>pre mid opt c post.
        mid \<in> {js ''s'', js ''ing'', []} \<and> opt \<in> {js ''the letter '', js ''the character '', []}
        \<and> isLetter c \<and> q = pre @ js ''contain'' @ mid @ js '' '' @ opt @ c # post)"
proof -
  have "firstMatch containsAt q \<noteq> None \<longleftrightarrow>
      (\<exists>pre suf. q = pre @ suf \<and> (\<exists>mid opt c r.
        mid \<in> {js ''s'', js ''ing'', []} \<and> opt \<in> {js ''the letter '', js ''the character '', []}
        \<and> isLetter c \<and> suf = js ''contain'' @ mid @ js '' '' @ opt @ c # r))"
    by (simp only: firstMatch_iff containsAt_iff)
  also have "\<dots> \<longleftrightarrow> (\<exists>pre mid opt c post.
        mid \<in> {js ''s'', js ''ing'', []} \<and> opt \<in> {js ''the letter '', js ''the character '', []}
        \<and> isLetter c \<and> q = pre @ js ''contain'' @ mid @ js '' '' @ opt @ c # post)"
    by blast
  finally show ?thesis .
qed

subsection \<open>The phrases of the specification\<close>

lemma parse_first_vowel:
  "parseNaturalLanguage U (js ''palindromic strings that contain the first vowel'')
     = \<lparr>is_palindrome_f = Some True, word_count_f = None, min_length = None,
        max_length = None, contains_character = Some (js ''a'')\<rparr>"
proof -
  have "list_all (\<lambda>u. u < 0x80) (js ''palindromic strings that contain the first vowel'')"
    by code_simp
  moreover have
    "parseNaturalLanguage (\<lambda>s i. []) (js ''palindromic strings that contain the first vowel'')
       = \<lparr>is_palindrome_f = Some True, word_count_f = None, min_length = None,
          max_length = None, contains_character = Some (js ''a'')\<rparr>"
    by code_simp
  ultimately show ?thesis
    by (rule trans [OF parse_ascii])
qed

lemma lower_first_vowel:
  "toLowerCase U (js ''palindromic strings that contain the first vowel'')
     = js ''palindromic strings that contain the first vowel''"
proof -
  have "list_all (\<lambda>u. u < 0x80) (js ''palindromic strings that contain the first vowel'')"
    by code_simp
  moreover have "map asciiLower (js ''palindromic strings that contain the first vowel'')
       = js ''palindromic strings that contain the first vowel''"
    by code_simp
  ultimately show ?thesis
    by (simp only: toLowerCase_ascii)
qed

lemma letter_rule_first_vowel:
  "firstMatch containsAt (js ''palindromic strings that contain the first vowel'')
     = Some (js ''t'')"
  by code_simp

lemma includes_first_vowel:
  "includes_str (js ''palindromic strings that contain the first vowel'') (js ''first vowel'')"
  by code_simp

lemma parse_single_word:
  "parseNaturalLanguage U (js ''all single word palindromic strings'')
     = \<lparr>is_palindrome_f = Some True, word_count_f = Some 1, min_length = None,
        max_length = None, contains_character = None\<rparr>"
proof -
  have "list_all (\<lambda>u. u < 0x80) (js ''all single word palindromic strings'')"
    by code_simp
  moreover have
    "parseNaturalLanguage (\<lambda>s i. []) (js ''all single word palindromic strings'')
       = \<lparr>is_palindrome_f = Some True, word_count_f = Some 1, min_length = None,
          max_length = None, contains_character = None\<rparr>"
    by code_simp
  ultimately show ?thesis
    by (rule trans [OF parse_ascii])
qed

lemma parse_bananas: "parseNaturalLanguage U (js ''bananas are yellow'') = noFilters"
proof -
  have "list_all (\<lambda>u. u < 0x80) (js ''bananas are yellow'')"
    by code_simp
  moreover have "parseNaturalLanguage (\<lambda>s i. []) (js ''bananas are yellow'') = noFilters"
    by code_simp
  ultimately show ?thesis
    by (rule trans [OF parse_ascii])
qed

text \<open>
  C4. The rules of the first and the second vowel come after the rule of the contained
  letter and write the same field: when the phrase holds \<open>first vowel\<close> the character is
  \<open>a\<close>, otherwise when it holds \<open>second vowel\<close> the character is \<open>e\<close>, whatever the
  letter rule found; only when neither is there is the letter of the letter rule kept.
  In \<open>palindromic strings that contain the first vowel\<close> the letter rule finds \<open>t\<close>
  (of \<open>contain the\<close>), the vowel rule overwrites it, and the result is exactly the
  palindrome flag and the character \<open>a\<close>.
\<close>

theorem vowel_rule_overwrites:
  "(includes_str (toLowerCase U q) (js ''first vowel'') \<longrightarrow>
      contains_character (parseNaturalLanguage U q) = Some (js ''a''))
   \<and> (\<not> includes_str (toLowerCase U q) (js ''first vowel'') \<and>
        includes_str (toLowerCase U q) (js ''second vowel'') \<longrightarrow>
      contains_character (parseNaturalLanguage U q) = Some (js ''e''))
   \<and> (\<not> includes_str (toLowerCase U q) (js ''first vowel'') \<and>
        \<not> includes_str (toLowerCase U q) (js ''second vowel'') \<longrightarrow>
      contains_character (parseNaturalLanguage U q) = firstMatch containsAt (toLowerCase U q))
   \<and> firstMatch containsAt
        (toLowerCase U (js ''palindromic strings that contain the first vowel''))
      = Some (js ''t'')
   \<and> parseNaturalLanguage U (js ''palindromic strings that contain the first vowel'')
      = \<lparr>is_palindrome_f = Some True, word_count_f = None, min_length = None,
         max_length = None, contains_character = Some (js ''a'')\<rparr>"
  using parse_first_vowel [of U] letter_rule_first_vowel
  by (simp add: parse_fields lower_first_vowel)

theorem vowel_rule_overwrites_witness:
  "\<forall>U. includes_str (toLowerCase U (js ''palindromic strings that contain the first vowel''))
          (js ''first vowel'')
     \<and> firstMatch containsAt
          (toLowerCase U (js ''palindromic strings that contain the first vowel''))
        = Some (js ''t'')
     \<and> contains_character
          (parseNaturalLanguage U (js ''palindromic strings that contain the first vowel''))
        = Some (js ''a'')"
proof (intro allI)
  fix U :: lowercase_mapping
  let ?q = "js ''palindromic strings that contain the first vowel''"
  have inc: "includes_str (toLowerCase U ?q) (js ''first vowel'')"
    using includes_first_vowel by (simp only: lower_first_vowel)
  with vowel_rule_overwrites [of U ?q]
  show "includes_str (toLowerCase U ?q) (js ''first vowel'')
     \<and> firstMatch containsAt (toLowerCase U ?q) = Some (js ''t'')
     \<and> contains_character (parseNaturalLanguage U ?q) = Some (js ''a'')"
    by blast
qed

text \<open>
  C7. The rules of the word count are tried in the order \<open>single word\<close> (1), then
  \<open>two word\<close> or \<open>2 word\<close> (2), then \<open>three word\<close> or \<open>3 word\<close> (3); the first one that
  matches gives the word count and the later ones are not tried. The phrase
  \<open>all single word palindromic strings\<close> gives the word count 1 and the palindrome flag,
  and nothing else.
\<close>

theorem word_count_rules_in_order:
  "word_count_f (parseNaturalLanguage U q) =
     (if includes_str (toLowerCase U q) (js ''single word'') then Some 1
      else if includes_str (toLowerCase U q) (js ''two word'') \<or>
              includes_str (toLowerCase U q) (js ''2 word'') then Some 2
      else if includes_str (toLowerCase U q) (js ''three word'') \<or>
              includes_str (toLowerCase U q) (js ''3 word'') then Some 3
      else None)
   \<and> parseNaturalLanguage U (js ''all single word palindromic strings'')
      = \<lparr>is_palindrome_f = Some True, word_count_f = Some 1, min_length = None,
         max_length = None, contains_character = None\<rparr>"
  using parse_single_word [of U] parse_fields(2) [of U q]
  by (rule_tac conjI)

text \<open>
  C8. The interpreter has no failing branch: on every phrase it returns a criteria
  record. The record is the empty one exactly when none of the patterns matches the
  lowercased phrase; \<open>bananas are yellow\<close> gives the empty record.
\<close>

theorem parse_empty_iff_no_pattern:
  "(parseNaturalLanguage U q = noFilters \<longleftrightarrow> \<not> anyPatternMatches (toLowerCase U q))
   \<and> parseNaturalLanguage U (js ''bananas are yellow'') = noFilters"
proof -
  have "parseNaturalLanguage U q = noFilters \<longleftrightarrow> \<not> anyPatternMatches (toLowerCase U q)"
    unfolding filters_eq_iff parse_fields
    by (simp add: noFilters_def anyPatternMatches_def)
  with parse_bananas [of U] show ?thesis
    by blast
qed

theorem parse_empty_iff_no_pattern_witness:
  "\<forall>U. \<not> anyPatternMatches (toLowerCase U (js ''bananas are yellow''))
     \<and> parseNaturalLanguage U (js ''bananas are yellow'') = noFilters
     \<and> anyPatternMatches (toLowerCase U (js ''all single word palindromic strings''))
     \<and> parseNaturalLanguage U (js ''all single word palindromic strings'') \<noteq> noFilters"
proof (intro allI)
  fix U :: lowercase_mapping
  have a: "list_all (\<lambda>u. u < 0x80) (js ''bananas are yellow'')"
    and b: "list_all (\<lambda>u. u < 0x80) (js ''all single word palindromic strings'')"
    by code_simp+
  have "\<not> anyPatternMatches (map asciiLower (js ''bananas are yellow''))"
    by code_simp
  then have no: "\<not> anyPatternMatches (toLowerCase U (js ''bananas are yellow''))"
    by (simp only: toLowerCase_ascii [OF a] simp_thms)
  have "anyPatternMatches (map asciiLower (js ''all single word palindromic strings''))"
    by code_simp
  then have yes: "anyPatternMatches (toLowerCase U (js ''all single word palindromic strings''))"
    by (simp only: toLowerCase_ascii [OF b])
  from no yes parse_empty_iff_no_pattern [of U "js ''bananas are yellow''"]
    parse_empty_iff_no_pattern [of U "js ''all single word palindromic strings''"]
  show "\<not> anyPatternMatches (toLowerCase U (js ''bananas are yellow''))
     \<and> parseNaturalLanguage U (js ''bananas are yellow'') = noFilters
     \<and> anyPatternMatches (toLowerCase U (js ''all single word palindromic strings''))
     \<and> parseNaturalLanguage U (js ''all single word palindromic strings'') \<noteq> noFilters"
    by blast
qed

section \<open>Properties of the fingerprint\<close>

subsection \<open>The UTF-8 encoding is injective on well-formed strings\<close>

lemma split3: "(c::nat) div 0x1000 * 0x1000 + c div 0x40 mod 0x40 * 0x40 + c mod 0x40 = c"
proof -
  define d where "d = c div 0x40"
  have a: "c div 0x1000 = d div 0x40"
    unfolding d_def by (simp add: div_mult2_eq [symmetric])
  have b: "d div 0x40 * 0x40 + d mod 0x40 = d"
    by (rule div_mult_mod_eq)
  have e: "d * 0x40 + c mod 0x40 = c"
    unfolding d_def by (rule div_mult_mod_eq)
  from b have "d div 0x40 * 0x1000 + d mod 0x40 * 0x40 = d * 0x40"
    by linarith
  with e show ?thesis
    unfolding a d_def [symmetric] by linarith
qed

lemma split4: "(c::nat) div 0x40000 * 0x40000 + c div 0x1000 mod 0x40 * 0x1000
        + c div 0x40 mod 0x40 * 0x40 + c mod 0x40 = c"
proof -
  define d where "d = c div 0x1000"
  have a: "c div 0x40000 = d div 0x40"
    unfolding d_def by (simp add: div_mult2_eq [symmetric])
  have b: "d div 0x40 * 0x40 + d mod 0x40 = d"
    by (rule div_mult_mod_eq)
  from b have "d div 0x40 * 0x40000 + d mod 0x40 * 0x1000 = d * 0x1000"
    by linarith
  with split3 [of c] show ?thesis
    unfolding a d_def [symmetric] by linarith
qed

lemma unat_byte: "n < 256 \<Longrightarrow> unat (of_nat n :: byte) = n"
  by (simp add: unat_of_nat)

lemma decodeFirst_utf8:
  assumes "c < 0x110000" and "\<not> (0xD800 \<le> c \<and> c \<le> 0xDFFF)"
  shows "decodeFirst (utf8CodePoint c @ r) = (c, r)"
proof -
  consider "c < 0x80" | "0x80 \<le> c" "c < 0x800" | "0x800 \<le> c" "c < 0x10000" | "0x10000 \<le> c"
    by linarith
  then show ?thesis
  proof cases
    case 1
    then have "unat (of_nat c :: byte) = c"
      by (simp add: unat_byte)
    with 1 show ?thesis
      by (simp add: utf8CodePoint_def decodeFirst_def)
  next
    case 2
    define n0 n1 where "n0 = 0xC0 + c div 0x40" and "n1 = 0x80 + c mod 0x40"
    have enc: "utf8CodePoint c = [of_nat n0, of_nat n1]"
      using 2 by (simp add: utf8CodePoint_def n0_def n1_def)
    have rng: "\<not> n0 < 0x80" "n0 < 0xE0" "n0 < 256" "n1 < 256"
      using 2 by (simp_all add: n0_def n1_def)
    have val: "(n0 - 0xC0) * 0x40 + (n1 - 0x80) = c"
      by (simp add: n0_def n1_def)
    from rng have "unat (of_nat n0 :: byte) = n0" "unat (of_nat n1 :: byte) = n1"
      by (simp_all only: unat_byte)
    with rng val show ?thesis
      by (simp add: enc decodeFirst_def)
  next
    case 3
    define n0 n1 n2 where "n0 = 0xE0 + c div 0x1000" and "n1 = 0x80 + c div 0x40 mod 0x40"
      and "n2 = 0x80 + c mod 0x40"
    from assms have ns: "(0xD800 \<le> c \<and> c \<le> 0xDFFF) = False"
      by simp
    have enc: "utf8CodePoint c = [of_nat n0, of_nat n1, of_nat n2]"
      using 3 by (simp add: utf8CodePoint_def n0_def n1_def n2_def ns)
    have rng: "\<not> n0 < 0x80" "\<not> n0 < 0xE0" "n0 < 0xF0" "n0 < 256" "n1 < 256" "n2 < 256"
      using 3 by (simp_all add: n0_def n1_def n2_def)
    have "c div 0x1000 * 0x1000 + c div 0x40 mod 0x40 * 0x40 + c mod 0x40 = c"
      by (rule split3)
    then have val: "(n0 - 0xE0) * 0x1000 + (n1 - 0x80) * 0x40 + (n2 - 0x80) = c"
      by (simp add: n0_def n1_def n2_def)
    from rng have "unat (of_nat n0 :: byte) = n0" "unat (of_nat n1 :: byte) = n1"
      "unat (of_nat n2 :: byte) = n2"
      by (simp_all only: unat_byte)
    with rng val show ?thesis
      by (simp add: enc decodeFirst_def)
  next
    case 4
    define n0 n1 n2 n3 where "n0 = 0xF0 + c div 0x40000"
      and "n1 = 0x80 + c div 0x1000 mod 0x40" and "n2 = 0x80 + c div 0x40 mod 0x40"
      and "n3 = 0x80 + c mod 0x40"
    from 4 have ns: "(0xD800 \<le> c \<and> c \<le> 0xDFFF) = False"
      by simp
    have enc: "utf8CodePoint c = [of_nat n0, of_nat n1, of_nat n2, of_nat n3]"
      using 4 by (simp add: utf8CodePoint_def n0_def n1_def n2_def n3_def ns)
    have rng: "\<not> n0 < 0x80" "\<not> n0 < 0xE0" "\<not> n0 < 0xF0" "n0 < 256" "n1 < 256" "n2 < 256"
      "n3 < 256"
      using 4 assms by (simp_all add: n0_def n1_def n2_def n3_def)
    have "c div 0x40000 * 0x40000 + c div 0x1000 mod 0x40 * 0x1000
        + c div 0x40 mod 0x40 * 0x40 + c mod 0x40 = c"
      by (rule split4)
    then have val: "(n0 - 0xF0) * 0x40000 + (n1 - 0x80) * 0x1000 + (n2 - 0x80) * 0x40
        + (n3 - 0x80) = c"
      by (simp add: n0_def n1_def n2_def n3_def)
    from rng have "unat (of_nat n0 :: byte) = n0" "unat (of_nat n1 :: byte) = n1"
      "unat (of_nat n2 :: byte) = n2" "unat (of_nat n3 :: byte) = n3"
      by (simp_all only: unat_byte)
    with rng val show ?thesis
      by (simp add: enc decodeFirst_def)
  qed
qed

lemma iterator_elements:
  "cp \<in> set (stringIterator s) \<Longrightarrow>
     (\<exists>u. cp = [u]) \<or> (\<exists>h l. cp = [h, l] \<and> isHighSurrogate h \<and> isLowSurrogate l)"
  by (induction s rule: stringIterator.induct) (auto split: if_splits)

lemma high_bounds: "isHighSurrogate h \<longleftrightarrow> 0xD800 \<le> unat h \<and> unat h \<le> 0xDBFF"
  by (simp add: isHighSurrogate_def word_le_nat_alt)

lemma low_bounds: "isLowSurrogate l \<longleftrightarrow> 0xDC00 \<le> unat l \<and> unat l \<le> 0xDFFF"
  by (simp add: isLowSurrogate_def word_le_nat_alt)

lemma unat_unit: "unat (u :: code_unit) < 0x10000"
  using unsigned_less [of u, where 'a = nat] by simp

lemma codePoint_single: "codePoint [u] = unat u"
  by (simp add: codePoint_def)

lemma codePoint_pair:
  "codePoint [h, l] = 0x10000 + (unat h - 0xD800) * 0x400 + (unat l - 0xDC00)"
  by (simp add: codePoint_def)

lemma codePoint_valid:
  assumes "cp \<in> set (stringIterator s)" and "scalarValue cp"
  shows "codePoint cp < 0x110000 \<and> \<not> (0xD800 \<le> codePoint cp \<and> codePoint cp \<le> 0xDFFF)"
  using iterator_elements [OF assms(1)]
proof (elim disjE exE conjE)
  fix u assume cp: "cp = [u]"
  with assms(2) have "\<not> isHighSurrogate u" "\<not> isLowSurrogate u"
    by (simp_all add: scalarValue_def)
  with unat_unit [of u] show ?thesis
    unfolding cp codePoint_single high_bounds low_bounds by linarith
next
  fix h l assume cp: "cp = [h, l]" and "isHighSurrogate h" "isLowSurrogate l"
  then show ?thesis
    unfolding cp codePoint_pair high_bounds low_bounds by linarith
qed

lemma codePoint_inj:
  assumes "cp \<in> set (stringIterator s)" "cp' \<in> set (stringIterator s')"
    and "codePoint cp = codePoint cp'"
  shows "cp = cp'"
proof -
  have single_lt: "codePoint [u] < 0x10000" for u
    using unat_unit [of u] by (simp add: codePoint_single)
  have pair_ge: "0x10000 \<le> codePoint [h, l]" for h l
    by (simp add: codePoint_pair)
  from iterator_elements [OF assms(1)] iterator_elements [OF assms(2)]
  consider u u' where "cp = [u]" "cp' = [u']"
    | u h l where "cp = [u]" "cp' = [h, l]"
    | u h l where "cp' = [u]" "cp = [h, l]"
    | h l h' l' where "cp = [h, l]" "cp' = [h', l']" "isHighSurrogate h" "isLowSurrogate l"
        "isHighSurrogate h'" "isLowSurrogate l'"
    by blast
  then show ?thesis
  proof cases
    case 1
    with assms(3) show ?thesis by (simp add: codePoint_single word_unat_eq_iff)
  next
    case 2
    with assms(3) single_lt [of u] pair_ge [of h l] show ?thesis by simp
  next
    case 3
    with assms(3) single_lt [of u] pair_ge [of h l] show ?thesis by simp
  next
    case 4
    define a b a' b' where "a = unat h - 0xD800" and "b = unat l - 0xDC00"
      and "a' = unat h' - 0xD800" and "b' = unat l' - 0xDC00"
    from 4 have restore: "unat h = a + 0xD800" "unat l = b + 0xDC00"
      "unat h' = a' + 0xD800" "unat l' = b' + 0xDC00"
      and small: "b < 0x400" "b' < 0x400"
      unfolding high_bounds low_bounds a_def b_def a'_def b'_def by linarith+
    from 4 assms(3) have "a * 0x400 + b = a' * 0x400 + b'"
      by (simp add: codePoint_pair a_def b_def a'_def b'_def)
    with small have "a = a'"
      by linarith
    with \<open>a * 0x400 + b = a' * 0x400 + b'\<close> have "a = a'" "b = b'"
      by simp_all
    with restore have "unat h = unat h'" "unat l = unat l'"
      by simp_all
    with 4 show ?thesis by (simp add: word_unat_eq_iff)
  qed
qed

lemma utf8CodePoint_nonempty: "utf8CodePoint c \<noteq> []"
  by (simp add: utf8CodePoint_def)

lemma utf8_head_inj:
  assumes x: "x \<in> set (stringIterator s)" "scalarValue x"
    and y: "y \<in> set (stringIterator s')" "scalarValue y"
    and eq: "utf8CodePoint (codePoint x) @ r = utf8CodePoint (codePoint y) @ r'"
  shows "x = y \<and> r = r'"
proof -
  from codePoint_valid [OF x]
  have dx: "decodeFirst (utf8CodePoint (codePoint x) @ r) = (codePoint x, r)"
    by (intro decodeFirst_utf8) simp_all
  from codePoint_valid [OF y]
  have dy: "decodeFirst (utf8CodePoint (codePoint y) @ r') = (codePoint y, r')"
    by (intro decodeFirst_utf8) simp_all
  have "(codePoint x, r) = decodeFirst (utf8CodePoint (codePoint x) @ r)"
    by (rule dx [symmetric])
  also have "\<dots> = decodeFirst (utf8CodePoint (codePoint y) @ r')"
    by (rule arg_cong [OF eq])
  also have "\<dots> = (codePoint y, r')"
    by (rule dy)
  finally have "codePoint x = codePoint y" and "r = r'"
    by (simp_all only: prod.inject)
  with codePoint_inj [OF x(1) y(1)] show ?thesis
    by blast
qed

lemma utf8_elements_inj:
  assumes "set xs \<subseteq> set (stringIterator s)" "set ys \<subseteq> set (stringIterator s')"
    and "list_all scalarValue xs" "list_all scalarValue ys"
    and "concat (map (\<lambda>cp. utf8CodePoint (codePoint cp)) xs)
       = concat (map (\<lambda>cp. utf8CodePoint (codePoint cp)) ys)"
  shows "xs = ys"
  using assms
proof (induction xs arbitrary: ys)
  case Nil
  show ?case
  proof (cases ys)
    case Nil
    then show ?thesis by simp
  next
    case (Cons y ys')
    with Nil.prems(5) have "utf8CodePoint (codePoint y) = []" by simp
    with utf8CodePoint_nonempty show ?thesis by blast
  qed
next
  case (Cons x xs)
  from Cons.prems(1,3) have vx: "x \<in> set (stringIterator s)" "scalarValue x"
    and sx: "set xs \<subseteq> set (stringIterator s)" "list_all scalarValue xs"
    by simp_all
  show ?case
  proof (cases ys)
    case Nil
    with Cons.prems(5) have "utf8CodePoint (codePoint x) = []" by simp
    with utf8CodePoint_nonempty show ?thesis by blast
  next
    case ys: (Cons y ys')
    from Cons.prems(2,4) have vy: "y \<in> set (stringIterator s')" "scalarValue y"
      and sy: "set ys' \<subseteq> set (stringIterator s')" "list_all scalarValue ys'"
      unfolding ys by simp_all
    let ?e = "\<lambda>zs. concat (map (\<lambda>cp. utf8CodePoint (codePoint cp)) zs)"
    have eq: "utf8CodePoint (codePoint x) @ ?e xs = utf8CodePoint (codePoint y) @ ?e ys'"
      using Cons.prems(5) unfolding ys by simp
    from utf8_head_inj [OF vx vy eq] have "x = y" and rest: "?e xs = ?e ys'"
      by blast+
    from Cons.IH [OF sx(1) sy(1) sx(2) sy(2) rest] have "xs = ys'" .
    with \<open>x = y\<close> show ?thesis
      unfolding ys by simp
  qed
qed

lemma utf8Encode_inj:
  assumes "wellFormed s1" "wellFormed s2" "utf8Encode s1 = utf8Encode s2"
  shows "s1 = s2"
proof -
  have "stringIterator s1 = stringIterator s2"
  proof (rule utf8_elements_inj)
    show "set (stringIterator s1) \<subseteq> set (stringIterator s1)" by (rule subset_refl)
    show "set (stringIterator s2) \<subseteq> set (stringIterator s2)" by (rule subset_refl)
    show "list_all scalarValue (stringIterator s1)" using assms(1) by (simp only: wellFormed_def)
    show "list_all scalarValue (stringIterator s2)" using assms(2) by (simp only: wellFormed_def)
    show "concat (map (\<lambda>cp. utf8CodePoint (codePoint cp)) (stringIterator s1))
       = concat (map (\<lambda>cp. utf8CodePoint (codePoint cp)) (stringIterator s2))"
      using assms(3) by (simp only: utf8Encode_def comp_def)
  qed
  then have "concat (stringIterator s1) = concat (stringIterator s2)" by simp
  then show ?thesis by (simp only: concat_stringIterator)
qed

subsection \<open>The hexadecimal digest\<close>

lemma unat_unit_of_nat: "k < 0x10000 \<Longrightarrow> unat (of_nat k :: code_unit) = k"
  by (simp add: unat_of_nat)

lemma unat_hexDigit:
  assumes "n < 16"
  shows "unat (hexDigit n) = (if n < 10 then 0x30 + n else 0x61 + (n - 10))"
proof (cases "n < 10")
  case True
  then have "0x30 + n < 0x10000" by simp
  then have "unat (of_nat (0x30 + n) :: code_unit) = 0x30 + n"
    by (rule unat_unit_of_nat)
  with True show ?thesis
    by (simp only: hexDigit_def if_True)
next
  case False
  with assms have "0x61 + (n - 10) < 0x10000" by simp
  then have "unat (of_nat (0x61 + (n - 10)) :: code_unit) = 0x61 + (n - 10)"
    by (rule unat_unit_of_nat)
  with False show ?thesis
    by (simp only: hexDigit_def if_False)
qed

lemma hexDigit_inj:
  assumes "n < 16" "m < 16" "hexDigit n = hexDigit m"
  shows "n = m"
proof -
  from assms(3) have "unat (hexDigit n) = unat (hexDigit m)"
    by simp
  with assms(1,2) show ?thesis
    by (simp only: unat_hexDigit split: if_splits)
qed

lemma hexByte_inj:
  assumes "hexByte b = hexByte b'"
  shows "b = b'"
proof -
  have lt: "unat b div 16 < 16" "unat b mod 16 < 16" "unat b' div 16 < 16" "unat b' mod 16 < 16"
    using unsigned_less [of b, where 'a = nat] unsigned_less [of b', where 'a = nat]
    by simp_all
  from assms have "hexDigit (unat b div 16) = hexDigit (unat b' div 16)"
    and "hexDigit (unat b mod 16) = hexDigit (unat b' mod 16)"
    by (simp_all add: hexByte_def)
  then have "unat b div 16 = unat b' div 16" "unat b mod 16 = unat b' mod 16"
    using lt by (blast intro: hexDigit_inj)+
  then have "unat b = unat b'"
    by (metis div_mult_mod_eq)
  then show ?thesis
    by (simp add: word_unat_eq_iff)
qed

lemma hexByte_append:
  "hexByte b @ r = hexByte b' @ r' \<Longrightarrow> hexByte b = hexByte b' \<and> r = r'"
  by (simp add: hexByte_def)

lemma hex_inj: "concat (map hexByte bs) = concat (map hexByte bs') \<Longrightarrow> bs = bs'"
proof (induction bs arbitrary: bs')
  case Nil
  then show ?case by (cases bs') (simp_all add: hexByte_def)
next
  case (Cons b bs)
  show ?case
  proof (cases bs')
    case Nil
    with Cons.prems show ?thesis by (simp add: hexByte_def)
  next
    case (Cons b' bs'')
    with Cons.prems have "hexByte b @ concat (map hexByte bs)
        = hexByte b' @ concat (map hexByte bs'')"
      by simp
    then have "hexByte b = hexByte b'"
      and "concat (map hexByte bs) = concat (map hexByte bs'')"
      by (blast dest: hexByte_append)+
    with Cons.IH Cons show ?thesis
      by (simp add: hexByte_inj)
  qed
qed

subsection \<open>Strings that share a fingerprint\<close>

text \<open>
  Two different strings without unpaired surrogates that have the same fingerprint are
  a collision of the digest function itself: their UTF-8 encodings differ and have the
  same digest.
\<close>

lemma scalar_collision_is_digest_collision:
  assumes "wellFormed s1" "wellFormed s2" "s1 \<noteq> s2"
    and "sha256_hash (analyzeString U H s1) = sha256_hash (analyzeString U H s2)"
  shows "utf8Encode s1 \<noteq> utf8Encode s2 \<and> H (utf8Encode s1) = H (utf8Encode s2)"
proof -
  from assms(4)
  have "concat (map hexByte (H (utf8Encode s1))) = concat (map hexByte (H (utf8Encode s2)))"
    by (simp add: analyzeString_hash computeHash_def)
  then have "H (utf8Encode s1) = H (utf8Encode s2)"
    by (rule hex_inj)
  moreover from assms(1-3) have "utf8Encode s1 \<noteq> utf8Encode s2"
    by (blast dest: utf8Encode_inj)
  ultimately show ?thesis
    by blast
qed

lemma hash_D800: "computeHash H [0xD800] = concat (map hexByte (H [0xEF, 0xBF, 0xBD]))"
  by (simp add: computeHash_def utf8Encode_def codePoint_def utf8CodePoint_def)

lemma hash_D801: "computeHash H [0xD801] = concat (map hexByte (H [0xEF, 0xBF, 0xBD]))"
  by (simp add: computeHash_def utf8Encode_def codePoint_def utf8CodePoint_def)

text \<open>
  C9. The fingerprint is the key under which a string is stored, so equal fingerprints
  are to mean equal strings. The code breaks this on strings with an unpaired surrogate,
  which it receives through a JSON escape: the strings of the one code unit U+D800 and
  of the one code unit U+D801 differ, both are encoded as the bytes EF BF BD, and they
  have the same fingerprint whatever the digest function is. After the first is posted
  to the empty store and stored, the second, which is not in the store, is answered
  409 \<open>String already exists in the system\<close>.
\<close>

theorem fingerprint_collision_conflict:
  "\<forall>U H t1 t2.
     [0xD800 :: code_unit] \<noteq> [0xD801]
     \<and> sha256_hash (analyzeString U H [0xD800]) = sha256_hash (analyzeString U H [0xD801])
     \<and> fst (post_strings U H t1 Map.empty (Str [0xD800]))
         = Created \<lparr>item_id = computeHash H [0xD800], item_value = [0xD800],
                    item_properties = analyzeString U H [0xD800], created_at = t1\<rparr>
     \<and> [0xD801] \<notin> item_value ` ran (snd (post_strings U H t1 Map.empty (Str [0xD800])))
     \<and> fst (post_strings U H t2 (snd (post_strings U H t1 Map.empty (Str [0xD800])))
            (Str [0xD801])) = Conflict"
  by (simp add: post_strings_def Let_def analyzeString_hash hash_D800 hash_D801)

end
